theory Spec2Isabelle
  imports Complex_Main "HOL-Library.Char_ord" "HOL-Library.List_Lexorder"
begin

section \<open>Documents of the \<open>books\<close> collection\<close>

text \<open>
  \<open>queries.js\<close> is a sheet of MongoDB shell statements run against the collection
  \<open>db.books\<close>. The collection is modelled as the list of its documents in natural
  (storage) order, a document as the ordered list of its fields. The store is schemaless,
  so a document may lack any field or hold a value of any type in it.

  Every BSON number (int32, int64, double) is represented by its mathematical value:
  MongoDB compares and groups numbers of different numeric types by value. Arithmetic of
  the expression operators is exact; NaN, infinities and rounding of doubles are outside
  the model.
\<close>

datatype bson = BNull | BBool bool | BNum rat | BStr string | BObjectId nat

type_synonym doc = "(string \<times> bson) list"

definition get_field :: "string \<Rightarrow> doc \<Rightarrow> bson option" where
  "get_field f d = map_of d f"

text \<open>A field path \<open>"$f"\<close> in an expression, a group key or a sort key: a missing field
  counts as null.\<close>

definition field_value :: "string \<Rightarrow> doc \<Rightarrow> bson" where
  "field_value f d = (case get_field f d of None \<Rightarrow> BNull | Some v \<Rightarrow> v)"

datatype error = TypeMismatch | DivideByZero | BadValue

section \<open>Query predicates\<close>

text \<open>
  A condition on one field: a plain value (equality), a comparison with a number
  (\<open>$gt\<close>, \<open>$gte\<close>, \<open>$lt\<close>, \<open>$lte\<close>) or the negation \<open>$not\<close> of a condition. The
  sheet uses equality, \<open>$gt\<close> and \<open>$gte\<close>. Equality with null also matches a missing
  field; a comparison with a number matches numbers only.
\<close>

datatype cond = Eq bson | Gt rat | Gte rat | Lt rat | Lte rat | Not cond

fun cond_holds :: "cond \<Rightarrow> bson option \<Rightarrow> bool" where
  "cond_holds (Eq v) None = (v = BNull)"
| "cond_holds (Eq v) (Some x) = (x = v)"
| "cond_holds (Gt n) (Some (BNum x)) = (n < x)"
| "cond_holds (Gt n) _ = False"
| "cond_holds (Gte n) (Some (BNum x)) = (n \<le> x)"
| "cond_holds (Gte n) _ = False"
| "cond_holds (Lt n) (Some (BNum x)) = (x < n)"
| "cond_holds (Lt n) _ = False"
| "cond_holds (Lte n) (Some (BNum x)) = (x \<le> n)"
| "cond_holds (Lte n) _ = False"
| "cond_holds (Not c) v = (\<not> cond_holds c v)"

text \<open>
  A query document is one of
  \<^item> \<open>Cond f c\<close>, the document \<open>{ f: c }\<close> with one condition on the field \<open>f\<close>;
  \<^item> \<open>And [q1, ..., qk]\<close>, the conjunction of the documents \<open>q1\<close> to \<open>qk\<close>: the
    implicit conjunction \<open>{ f1: c1, ..., fk: ck }\<close> of the entries of one document, which
    is how the sheet writes it, or \<open>{ $and: [q1, ..., qk] }\<close>; \<open>And []\<close> is the empty
    document \<open>{}\<close>, which matches every document;
  \<^item> \<open>Or q [q1, ..., qk]\<close>, the document \<open>{ $or: [q, q1, ..., qk] }\<close>. The server rejects
    an empty \<open>$or\<close> array, and the type has no value for it.
\<close>

datatype query = Cond string cond | And "query list" | Or query "query list"

fun matches :: "query \<Rightarrow> doc \<Rightarrow> bool" where
  "matches (Cond f c) d = cond_holds c (get_field f d)"
| "matches (And qs) d = list_all (\<lambda>q. matches q d) qs"
| "matches (Or q qs) d = (matches q d \<or> list_ex (\<lambda>p. matches p d) qs)"

text \<open>
  The field of a condition is the name of a top-level field. The server reads a name that
  starts with \<open>$\<close> as an operator and rejects the query when it knows none of that
  name, and reads a name with a \<open>.\<close> as a path into an embedded document; such names are
  outside the model, and \<open>valid_query\<close> excludes them.
\<close>

definition plain_field :: "string \<Rightarrow> bool" where
  "plain_field f = (f \<noteq> [] \<and> hd f \<noteq> CHR ''$'' \<and> CHR ''.'' \<notin> set f)"

fun valid_query :: "query \<Rightarrow> bool" where
  "valid_query (Cond f c) = plain_field f"
| "valid_query (And qs) = list_all valid_query qs"
| "valid_query (Or q qs) = (valid_query q \<and> list_all valid_query qs)"

section \<open>Collection methods\<close>

text \<open>\<open>db.books.find(q)\<close>: every matching document, in natural order.\<close>

definition books_find :: "query \<Rightarrow> doc list \<Rightarrow> doc list" where
  "books_find q books = filter (matches q) books"

text \<open>The aggregation stage \<open>{ $match: q }\<close>.\<close>

definition match_stage :: "query \<Rightarrow> doc list \<Rightarrow> doc list" where
  "match_stage q docs = filter (matches q) docs"

text \<open>\<open>$set\<close>: an existing field is overwritten in place, a new one is appended.\<close>

fun set_field :: "string \<Rightarrow> bson \<Rightarrow> doc \<Rightarrow> doc" where
  "set_field f v [] = [(f, v)]"
| "set_field f v ((k, x) # d) =
     (if k = f then (f, v) # d else (k, x) # set_field f v d)"

definition apply_set :: "doc \<Rightarrow> doc \<Rightarrow> doc" where
  "apply_set assignments d = fold (\<lambda>(f, v). set_field f v) assignments d"

text \<open>\<open>db.books.updateOne(q, { $set: s })\<close>: the first matching document is updated,
  nothing is inserted when none matches (no upsert).\<close>

fun updateOne :: "query \<Rightarrow> doc \<Rightarrow> doc list \<Rightarrow> doc list" where
  "updateOne q s [] = []"
| "updateOne q s (d # ds) =
     (if matches q d then apply_set s d # ds else d # updateOne q s ds)"

text \<open>\<open>db.books.deleteOne(q)\<close>: the first matching document is removed.\<close>

fun deleteOne :: "query \<Rightarrow> doc list \<Rightarrow> doc list" where
  "deleteOne q [] = []"
| "deleteOne q (d # ds) = (if matches q d then ds else d # deleteOne q ds)"

text \<open>
  An inclusion projection \<open>{ f: 1, ..., _id: 0 }\<close>: a field is kept when the
  specification includes it; \<open>_id\<close> is kept unless the specification excludes it.
\<close>

definition project_inclusion :: "(string \<times> bool) list \<Rightarrow> doc \<Rightarrow> doc" where
  "project_inclusion spec d =
     filter (\<lambda>(k, v). if k = ''_id'' then map_of spec k \<noteq> Some False
                       else map_of spec k = Some True) d"

definition books_find_projection :: "query \<Rightarrow> (string \<times> bool) list \<Rightarrow> doc list \<Rightarrow> doc list" where
  "books_find_projection q spec books = map (project_inclusion spec) (books_find q books)"

section \<open>Sorting\<close>

text \<open>
  The BSON comparison order across types: null, numbers, strings, ObjectId, booleans;
  strings compare bytewise, \<open>false\<close> is below \<open>true\<close>.
\<close>

fun type_rank :: "bson \<Rightarrow> nat" where
  "type_rank BNull = 0"
| "type_rank (BNum _) = 1"
| "type_rank (BStr _) = 2"
| "type_rank (BObjectId _) = 3"
| "type_rank (BBool _) = 4"

fun bson_le :: "bson \<Rightarrow> bson \<Rightarrow> bool" where
  "bson_le (BNum a) (BNum b) = (a \<le> b)"
| "bson_le (BStr a) (BStr b) = (a \<le> b)"
| "bson_le (BObjectId a) (BObjectId b) = (a \<le> b)"
| "bson_le (BBool a) (BBool b) = (a \<le> b)"
| "bson_le x y = (type_rank x \<le> type_rank y)"

text \<open>The direction of a sort specification: \<open>1\<close> is \<open>Asc\<close>, \<open>-1\<close> is \<open>Desc\<close>.\<close>

datatype direction = Asc | Desc

definition doc_le :: "string \<Rightarrow> direction \<Rightarrow> doc \<Rightarrow> doc \<Rightarrow> bool" where
  "doc_le f dir a b =
     (case dir of
        Asc \<Rightarrow> bson_le (field_value f a) (field_value f b)
      | Desc \<Rightarrow> bson_le (field_value f b) (field_value f a))"

text \<open>
  MongoDB leaves the order of documents with equal sort keys open. The model fixes one
  order (a stable insertion sort). The general theorems below hold for any such order;
  only the evaluations on sample collections show the order chosen here.
\<close>

fun insert_by :: "('a \<Rightarrow> 'a \<Rightarrow> bool) \<Rightarrow> 'a \<Rightarrow> 'a list \<Rightarrow> 'a list" where
  "insert_by le x [] = [x]"
| "insert_by le x (y # ys) = (if le x y then x # y # ys else y # insert_by le x ys)"

definition sort_by :: "('a \<Rightarrow> 'a \<Rightarrow> bool) \<Rightarrow> 'a list \<Rightarrow> 'a list" where
  "sort_by le xs = foldr (insert_by le) xs []"

text \<open>\<open>cursor.sort({ f: dir })\<close> and the stage \<open>{ $sort: { f: dir } }\<close>.\<close>

definition sort_stage :: "string \<Rightarrow> direction \<Rightarrow> doc list \<Rightarrow> doc list" where
  "sort_stage f dir docs = sort_by (doc_le f dir) docs"

section \<open>Skip and limit\<close>

text \<open>
  \<open>cursor.skip(n)\<close> rejects a negative \<open>n\<close>. \<open>cursor.limit(n)\<close>: \<open>0\<close> means no
  limit, a negative \<open>n\<close> returns at most \<open>|n|\<close> documents.
\<close>

definition cursor_skip :: "int \<Rightarrow> doc list \<Rightarrow> error + doc list" where
  "cursor_skip n docs = (if n < 0 then Inl BadValue else Inr (drop (nat n) docs))"

definition cursor_limit :: "int \<Rightarrow> doc list \<Rightarrow> doc list" where
  "cursor_limit n docs = (if n = 0 then docs else take (nat \<bar>n\<bar>) docs)"

text \<open>The stage \<open>{ $limit: n }\<close> for a positive \<open>n\<close>.\<close>

definition limit_stage :: "nat \<Rightarrow> doc list \<Rightarrow> doc list" where
  "limit_stage n docs = take n docs"

section \<open>Grouping and expressions\<close>

text \<open>
  \<open>$group\<close>: one group per distinct key, holding the members in input order. MongoDB
  leaves the order of the groups open; the model lists them by first occurrence.
\<close>

definition group_by :: "('a \<Rightarrow> bson) \<Rightarrow> 'a list \<Rightarrow> (bson \<times> 'a list) list" where
  "group_by key xs =
     map (\<lambda>k. (k, filter (\<lambda>x. key x = k) xs)) (rev (remdups (rev (map key xs))))"

text \<open>The accumulator \<open>{ $sum: 1 }\<close> counts the members of a group.\<close>

definition sum_one :: "'a list \<Rightarrow> bson" where
  "sum_one members = BNum (of_nat (length members))"

text \<open>The accumulator \<open>$avg\<close> ignores values that are not numbers and is null when
  no number is left.\<close>

fun numbers :: "bson list \<Rightarrow> rat list" where
  "numbers [] = []"
| "numbers (BNum a # vs) = a # numbers vs"
| "numbers (_ # vs) = numbers vs"

definition avg :: "bson list \<Rightarrow> bson" where
  "avg vs = (let ns = numbers vs in
             if ns = [] then BNull else BNum (sum_list ns / of_nat (length ns)))"

text \<open>
  \<open>$divide\<close>, \<open>$floor\<close> and \<open>$multiply\<close>: numbers are computed with, a null operand
  gives null, any other operand is an error that fails the whole aggregation.
\<close>

fun divide_expr :: "bson \<Rightarrow> bson \<Rightarrow> error + bson" where
  "divide_expr (BNum a) (BNum b) = (if b = 0 then Inl DivideByZero else Inr (BNum (a / b)))"
| "divide_expr BNull _ = Inr BNull"
| "divide_expr _ BNull = Inr BNull"
| "divide_expr _ _ = Inl TypeMismatch"

fun floor_expr :: "bson \<Rightarrow> error + bson" where
  "floor_expr (BNum a) = Inr (BNum (of_int \<lfloor>a\<rfloor>))"
| "floor_expr BNull = Inr BNull"
| "floor_expr _ = Inl TypeMismatch"

fun multiply_expr :: "bson \<Rightarrow> bson \<Rightarrow> error + bson" where
  "multiply_expr (BNum a) (BNum b) = Inr (BNum (a * b))"
| "multiply_expr (BNum a) BNull = Inr BNull"
| "multiply_expr (BNum a) _ = Inl TypeMismatch"
| "multiply_expr BNull _ = Inr BNull"
| "multiply_expr _ _ = Inl TypeMismatch"

fun map_err :: "('a \<Rightarrow> error + 'b) \<Rightarrow> 'a list \<Rightarrow> error + 'b list" where
  "map_err f [] = Inr []"
| "map_err f (x # xs) =
     (case f x of
        Inl e \<Rightarrow> Inl e
      | Inr y \<Rightarrow> (case map_err f xs of Inl e \<Rightarrow> Inl e | Inr ys \<Rightarrow> Inr (y # ys)))"

section \<open>The statements of \<open>queries.js\<close>\<close>

text \<open>Line 5: \<open>db.books.aggregate([{ $match: { published_year: { $gte: 1960 }}}])\<close>.\<close>

definition published_after_year :: "doc list \<Rightarrow> doc list" where
  "published_after_year books = match_stage (And [Cond ''published_year'' (Gte 1960)]) books"

text \<open>Lines 11-14: \<open>db.books.updateOne({ title: "1984" }, { $set: { price: 12.99 } })\<close>.\<close>

definition update_price :: "doc list \<Rightarrow> doc list" where
  "update_price books =
     updateOne (And [Cond ''title'' (Eq (BStr ''1984''))]) [(''price'', BNum (1299 / 100))] books"

text \<open>Line 17: \<open>db.books.deleteOne({ title: "Brave New World" })\<close>.\<close>

definition delete_by_title :: "doc list \<Rightarrow> doc list" where
  "delete_by_title books = deleteOne (And [Cond ''title'' (Eq (BStr ''Brave New World''))]) books"

text \<open>Line 21: \<open>db.books.find({ in_stock: true, published_year: { $gt: 2010 } })\<close>.\<close>

definition in_stock_after_2010 :: "doc list \<Rightarrow> doc list" where
  "in_stock_after_2010 books =
     books_find (And [Cond ''in_stock'' (Eq (BBool True)), Cond ''published_year'' (Gt 2010)]) books"

text \<open>Lines 24-27: \<open>db.books.find({}, { title: 1, author: 1, price: 1, _id: 0 })\<close>.\<close>

definition title_author_price :: "doc list \<Rightarrow> doc list" where
  "title_author_price books =
     books_find_projection (And [])
       [(''title'', True), (''author'', True), (''price'', True), (''_id'', False)] books"

text \<open>Lines 34-39:
  \<open>db.books.find().skip((pageNumber - 1) * pageSize).limit(pageSize)\<close>. The sheet sets
  \<open>pageSize = 5\<close> and \<open>pageNumber = 1\<close> and invites to change the page number; both are
  parameters here.\<close>

definition pagination :: "int \<Rightarrow> int \<Rightarrow> doc list \<Rightarrow> error + doc list" where
  "pagination pageSize pageNumber books =
     (case cursor_skip ((pageNumber - 1) * pageSize) (books_find (And []) books) of
        Inl e \<Rightarrow> Inl e
      | Inr docs \<Rightarrow> Inr (cursor_limit pageSize docs))"

text \<open>Lines 43-53: group by \<open>$genre\<close> with \<open>averagePrice: { $avg: "$price" }\<close>, then
  \<open>$sort: { averagePrice: 1 }\<close>.\<close>

definition average_price_by_genre :: "doc list \<Rightarrow> doc list" where
  "average_price_by_genre books =
     sort_stage ''averagePrice'' Asc
       (map (\<lambda>(k, members).
               [(''_id'', k), (''averagePrice'', avg (map (field_value ''price'') members))])
          (group_by (field_value ''genre'') books))"

text \<open>Lines 57-70: group by \<open>$author\<close> with \<open>bookCount: { $sum: 1 }\<close>, then
  \<open>$sort: { bookCount: -1 }\<close>, then \<open>$limit: 1\<close>.\<close>

definition author_with_most_books :: "doc list \<Rightarrow> doc list" where
  "author_with_most_books books =
     limit_stage 1
       (sort_stage ''bookCount'' Desc
          (map (\<lambda>(k, members). [(''_id'', k), (''bookCount'', sum_one members)])
             (group_by (field_value ''author'') books)))"

text \<open>Lines 73-90: group by \<open>{ $floor: { $divide: ["$published_year", 10] } }\<close> with
  \<open>bookCount: { $sum: 1 }\<close>, then project \<open>decade: { $multiply: ["$_id", 10] }\<close>,
  \<open>bookCount: 1\<close>, \<open>_id: 0\<close>, then \<open>$sort: { decade: 1 }\<close>.\<close>

definition decade_key :: "doc \<Rightarrow> error + bson" where
  "decade_key d =
     (case divide_expr (field_value ''published_year'' d) (BNum 10) of
        Inl e \<Rightarrow> Inl e
      | Inr q \<Rightarrow> floor_expr q)"

definition decade_project :: "bson \<times> bson list \<Rightarrow> error + doc" where
  "decade_project g =
     (case multiply_expr (fst g) (BNum 10) of
        Inl e \<Rightarrow> Inl e
      | Inr dec \<Rightarrow> Inr [(''bookCount'', sum_one (snd g)), (''decade'', dec)])"

definition books_by_decade :: "doc list \<Rightarrow> error + doc list" where
  "books_by_decade books =
     (case map_err decade_key books of
        Inl e \<Rightarrow> Inl e
      | Inr keys \<Rightarrow>
          (case map_err decade_project (group_by (\<lambda>k. k) keys) of
             Inl e \<Rightarrow> Inl e
           | Inr docs \<Rightarrow> Inr (sort_stage ''decade'' Asc docs)))"

section \<open>Sample documents\<close>

text \<open>A document of the shape the seed script inserts: an \<open>_id\<close> and the six fields
  of a book.\<close>

definition book :: "nat \<Rightarrow> string \<Rightarrow> string \<Rightarrow> string \<Rightarrow> int \<Rightarrow> rat \<Rightarrow> bool \<Rightarrow> doc" where
  "book i t a g y p s =
     [(''_id'', BObjectId i), (''title'', BStr t), (''author'', BStr a), (''genre'', BStr g),
      (''published_year'', BNum (of_int y)), (''price'', BNum p), (''in_stock'', BBool s)]"

section \<open>Basic facts\<close>

subsection \<open>Fields and predicates\<close>

lemma get_set_field: "get_field g (set_field f v d) = (if g = f then Some v else get_field g d)"
  by (induction d) (auto simp: get_field_def)

lemma others_set_field:
  "filter (\<lambda>(k, x). k \<noteq> f) (set_field f v d) = filter (\<lambda>(k, x). k \<noteq> f) d"
  by (induction d) auto

lemma matches_Nil: "matches (And []) d"
  by simp

lemma matches_eq_str:
  "matches (And [Cond f (Eq (BStr t))]) d \<longleftrightarrow> get_field f d = Some (BStr t)"
  by (cases "get_field f d") auto

lemma matches_gte:
  "matches (And [Cond f (Gte n)]) d \<longleftrightarrow> (\<exists>y. get_field f d = Some (BNum y) \<and> n \<le> y)"
proof (cases "get_field f d")
  case None
  then show ?thesis by simp
next
  case (Some v)
  then show ?thesis by (cases v) simp_all
qed

lemma matches_true_gt:
  "matches (And [Cond f (Eq (BBool True)), Cond g (Gt n)]) d \<longleftrightarrow>
     get_field f d = Some (BBool True) \<and> (\<exists>y. get_field g d = Some (BNum y) \<and> n < y)"
proof (cases "get_field g d")
  case None
  then show ?thesis by simp
next
  case (Some v)
  then show ?thesis
    by (cases v; cases "get_field f d") auto
qed

subsection \<open>Update and delete\<close>

lemma updateOne_length: "length (updateOne q s books) = length books"
  by (induction books) auto

lemma updateOne_nomatch: "books_find q books = [] \<Longrightarrow> updateOne q s books = books"
  by (induction books) (auto simp: books_find_def split: if_splits)

lemma updateOne_nth:
  "i < length books \<Longrightarrow>
     updateOne q s books ! i = books ! i \<or>
     (matches q (books ! i) \<and> updateOne q s books ! i = apply_set s (books ! i))"
proof (induction books arbitrary: i)
  case Nil
  then show ?case by simp
next
  case (Cons d ds)
  then show ?case by (cases i) auto
qed

lemma find_deleteOne: "books_find q (deleteOne q books) = tl (books_find q books)"
  by (induction books) (auto simp: books_find_def)

lemma deleteOne_nomatch: "books_find q books = [] \<Longrightarrow> deleteOne q books = books"
  by (induction books) (auto simp: books_find_def split: if_splits)

lemma deleteOne_split:
  "books_find q books \<noteq> [] \<Longrightarrow>
     \<exists>pre d post. books = pre @ d # post \<and> books_find q pre = [] \<and> matches q d \<and>
       deleteOne q books = pre @ post"
proof (induction books)
  case Nil
  then show ?case by (simp add: books_find_def)
next
  case (Cons b bs)
  show ?case
  proof (cases "matches q b")
    case True
    then have "b # bs = [] @ b # bs \<and> books_find q [] = [] \<and> matches q b \<and>
        deleteOne q (b # bs) = [] @ bs"
      by (simp add: books_find_def)
    then show ?thesis by blast
  next
    case False
    with Cons.prems have "books_find q bs \<noteq> []" by (simp add: books_find_def)
    with Cons.IH obtain pre d post where
      h: "bs = pre @ d # post" "books_find q pre = []" "matches q d" "deleteOne q bs = pre @ post"
      by blast
    with False have "b # bs = (b # pre) @ d # post \<and> books_find q (b # pre) = [] \<and>
        matches q d \<and> deleteOne q (b # bs) = (b # pre) @ post"
      by (simp add: books_find_def)
    then show ?thesis by blast
  qed
qed

subsection \<open>Sorting\<close>

lemma bson_le_total: "bson_le a b \<or> bson_le b a"
  by (cases a; cases b) auto

lemma bson_le_trans: "bson_le a b \<Longrightarrow> bson_le b c \<Longrightarrow> bson_le a c"
  by (cases a; cases b; cases c) auto

lemma set_insert_by: "set (insert_by le x xs) = insert x (set xs)"
  by (induction xs) auto

lemma set_sort_by: "set (sort_by le xs) = set xs"
  by (induction xs) (auto simp: sort_by_def set_insert_by)

lemma length_insert_by: "length (insert_by le x xs) = Suc (length xs)"
  by (induction xs) auto

lemma length_sort_by: "length (sort_by le xs) = length xs"
  by (induction xs) (auto simp: sort_by_def length_insert_by)

lemma distinct_map_insert_by:
  "distinct (map f (insert_by le x xs)) = (f x \<notin> f ` set xs \<and> distinct (map f xs))"
  by (induction xs) (auto simp: set_insert_by)

lemma distinct_map_sort_by: "distinct (map f (sort_by le xs)) = distinct (map f xs)"
  by (induction xs)
    (auto simp: sort_by_def distinct_map_insert_by set_sort_by[unfolded sort_by_def])

lemma sorted_insert_by:
  assumes total: "\<And>a b. le a b \<or> le b a"
    and trans: "\<And>a b c. le a b \<Longrightarrow> le b c \<Longrightarrow> le a c"
  shows "sorted_wrt le xs \<Longrightarrow> sorted_wrt le (insert_by le x xs)"
proof (induction xs)
  case Nil
  then show ?case by simp
next
  case (Cons y ys)
  show ?case
  proof (cases "le x y")
    case True
    with Cons.prems trans show ?thesis by auto
  next
    case False
    with total have "le y x" by blast
    with False Cons show ?thesis by (auto simp: set_insert_by)
  qed
qed

lemma sorted_sort_by:
  assumes total: "\<And>a b. le a b \<or> le b a"
    and trans: "\<And>a b c. le a b \<Longrightarrow> le b c \<Longrightarrow> le a c"
  shows "sorted_wrt le (sort_by le xs)"
proof (induction xs)
  case Nil
  then show ?case by (simp add: sort_by_def)
next
  case (Cons x xs)
  have "sort_by le (x # xs) = insert_by le x (sort_by le xs)" by (simp add: sort_by_def)
  with Cons sorted_insert_by[of le, OF total trans] show ?case by simp
qed

lemma sorted_sort_stage_asc:
  "sorted_wrt (\<lambda>a b. bson_le (field_value f a) (field_value f b)) (sort_stage f Asc docs)"
proof -
  have eq: "doc_le f Asc = (\<lambda>a b. bson_le (field_value f a) (field_value f b))"
    by (simp add: doc_le_def fun_eq_iff)
  have "sorted_wrt (doc_le f Asc) (sort_by (doc_le f Asc) docs)"
  proof (rule sorted_sort_by)
    show "doc_le f Asc a b \<or> doc_le f Asc b a" for a b
      by (simp add: eq bson_le_total)
    show "doc_le f Asc a b \<Longrightarrow> doc_le f Asc b c \<Longrightarrow> doc_le f Asc a c" for a b c
      unfolding eq by (rule bson_le_trans)
  qed
  then show ?thesis by (simp add: sort_stage_def eq)
qed

subsection \<open>Grouping\<close>

lemma group_by_keys: "map fst (group_by key xs) = rev (remdups (rev (map key xs)))"
  by (simp add: group_by_def comp_def)

lemma distinct_group_keys: "distinct (map fst (group_by key xs))"
  by (simp add: group_by_keys)

lemma set_group_keys: "fst ` set (group_by key xs) = key ` set xs"
  using arg_cong[OF group_by_keys, of set key xs] by simp

lemma group_by_members:
  "(k, ms) \<in> set (group_by key xs) \<Longrightarrow> ms = filter (\<lambda>x. key x = k) xs \<and> k \<in> key ` set xs"
  by (auto simp: group_by_def)

lemma numbers_BNum: "numbers (map BNum ps) = ps"
  by (induction ps) auto

section \<open>The author with the most books\<close>

lemma author_with_most_books_at_most_one: "length (author_with_most_books books) \<le> 1"
  by (simp add: author_with_most_books_def limit_stage_def)

text \<open>
  C1. The claim: the top-author aggregation returns every author whose book count equals
  the maximum, so all tied authors appear. The pipeline of lines 57-70 ends in
  \<open>$limit: 1\<close> and returns at most one group for every collection (lemma
  \<open>author_with_most_books_at_most_one\<close>). On the collection below George Orwell and
  J.R.R. Tolkien both have two books, the maximum, and the output holds George Orwell
  alone.
\<close>

theorem author_with_most_books_drops_tie:
  "author_with_most_books
     [book 1 ''1984'' ''George Orwell'' ''Dystopian'' 1949 (1099 / 100) True,
      book 2 ''The Hobbit'' ''J.R.R. Tolkien'' ''Fantasy'' 1937 (1499 / 100) True,
      book 3 ''Animal Farm'' ''George Orwell'' ''Satire'' 1945 (850 / 100) False,
      book 4 ''The Lord of the Rings'' ''J.R.R. Tolkien'' ''Fantasy'' 1954 (1999 / 100) True,
      book 5 ''To Kill a Mockingbird'' ''Harper Lee'' ''Fiction'' 1960 (1299 / 100) True]
   = [[(''_id'', BStr ''George Orwell''), (''bookCount'', BNum 2)]]"
  by (simp add: author_with_most_books_def limit_stage_def sort_stage_def sort_by_def doc_le_def
      group_by_def sum_one_def field_value_def get_field_def book_def)

section \<open>Deleting a book by its title\<close>

text \<open>
  C2 as stated fails when two documents carry the title: \<open>deleteOne\<close> removes the first
  of them, and the find that follows still returns the second.
\<close>

theorem delete_by_title_leaves_duplicate:
  "books_find (And [Cond ''title'' (Eq (BStr ''Brave New World''))])
     (delete_by_title
        [book 1 ''Brave New World'' ''Aldous Huxley'' ''Dystopian'' 1932 (1150 / 100) False,
         book 2 ''Brave New World'' ''Aldous Huxley'' ''Dystopian'' 1932 (999 / 100) True])
   = [book 2 ''Brave New World'' ''Aldous Huxley'' ''Dystopian'' 1932 (999 / 100) True]"
  by (simp add: delete_by_title_def books_find_def get_field_def book_def)

text \<open>
  C2, amended. The delete of line 17 removes the first document in natural order whose
  title is "Brave New World" and no other document; when no document matches, the
  collection is unchanged. A find with the same predicate afterwards returns the matching
  documents but the first, so it is empty whenever at most one document matched.
\<close>

theorem delete_by_title_removes_first:
  "(books_find (And [Cond ''title'' (Eq (BStr ''Brave New World''))]) books = [] \<longrightarrow>
      delete_by_title books = books) \<and>
   (books_find (And [Cond ''title'' (Eq (BStr ''Brave New World''))]) books \<noteq> [] \<longrightarrow>
      (\<exists>pre d post. books = pre @ d # post \<and>
         books_find (And [Cond ''title'' (Eq (BStr ''Brave New World''))]) pre = [] \<and>
         get_field ''title'' d = Some (BStr ''Brave New World'') \<and>
         delete_by_title books = pre @ post)) \<and>
   books_find (And [Cond ''title'' (Eq (BStr ''Brave New World''))]) (delete_by_title books)
     = tl (books_find (And [Cond ''title'' (Eq (BStr ''Brave New World''))]) books) \<and>
   (length (books_find (And [Cond ''title'' (Eq (BStr ''Brave New World''))]) books) \<le> 1 \<longrightarrow>
      books_find (And [Cond ''title'' (Eq (BStr ''Brave New World''))]) (delete_by_title books) = [])"
proof -
  let ?q = "(And [Cond ''title'' (Eq (BStr ''Brave New World''))])"
  have a: "books_find ?q books = [] \<longrightarrow> delete_by_title books = books"
    by (simp add: delete_by_title_def deleteOne_nomatch)
  have b: "books_find ?q books \<noteq> [] \<longrightarrow>
      (\<exists>pre d post. books = pre @ d # post \<and> books_find ?q pre = [] \<and>
         get_field ''title'' d = Some (BStr ''Brave New World'') \<and>
         delete_by_title books = pre @ post)"
    using deleteOne_split[of ?q books]
    unfolding delete_by_title_def matches_eq_str by blast
  have c: "books_find ?q (delete_by_title books) = tl (books_find ?q books)"
    by (simp add: delete_by_title_def find_deleteOne)
  have d: "length (books_find ?q books) \<le> 1 \<longrightarrow> books_find ?q (delete_by_title books) = []"
    unfolding c by (cases "books_find ?q books") auto
  from a b c d show ?thesis by blast
qed

theorem delete_by_title_removes_first_witness:
  "delete_by_title
     [book 1 ''Dune'' ''Frank Herbert'' ''Science Fiction'' 1965 (1250 / 100) True,
      book 2 ''Brave New World'' ''Aldous Huxley'' ''Dystopian'' 1932 (1150 / 100) False,
      book 3 ''The Hobbit'' ''J.R.R. Tolkien'' ''Fantasy'' 1937 (1499 / 100) True]
   = [book 1 ''Dune'' ''Frank Herbert'' ''Science Fiction'' 1965 (1250 / 100) True,
      book 3 ''The Hobbit'' ''J.R.R. Tolkien'' ''Fantasy'' 1937 (1499 / 100) True] \<and>
   length (books_find (And [Cond ''title'' (Eq (BStr ''Brave New World''))])
     [book 1 ''Dune'' ''Frank Herbert'' ''Science Fiction'' 1965 (1250 / 100) True,
      book 2 ''Brave New World'' ''Aldous Huxley'' ''Dystopian'' 1932 (1150 / 100) False,
      book 3 ''The Hobbit'' ''J.R.R. Tolkien'' ''Fantasy'' 1937 (1499 / 100) True]) = 1 \<and>
   books_find (And [Cond ''title'' (Eq (BStr ''Brave New World''))])
     (delete_by_title
        [book 1 ''Dune'' ''Frank Herbert'' ''Science Fiction'' 1965 (1250 / 100) True,
         book 2 ''Brave New World'' ''Aldous Huxley'' ''Dystopian'' 1932 (1150 / 100) False,
         book 3 ''The Hobbit'' ''J.R.R. Tolkien'' ''Fantasy'' 1937 (1499 / 100) True]) = [] \<and>
   books_find (And [Cond ''title'' (Eq (BStr ''Brave New World''))])
     [book 1 ''Dune'' ''Frank Herbert'' ''Science Fiction'' 1965 (1250 / 100) True] = [] \<and>
   delete_by_title [book 1 ''Dune'' ''Frank Herbert'' ''Science Fiction'' 1965 (1250 / 100) True]
   = [book 1 ''Dune'' ''Frank Herbert'' ''Science Fiction'' 1965 (1250 / 100) True]"
  using delete_by_title_removes_first
    [of "[book 1 ''Dune'' ''Frank Herbert'' ''Science Fiction'' 1965 (1250 / 100) True,
          book 2 ''Brave New World'' ''Aldous Huxley'' ''Dystopian'' 1932 (1150 / 100) False,
          book 3 ''The Hobbit'' ''J.R.R. Tolkien'' ''Fantasy'' 1937 (1499 / 100) True]"]
    delete_by_title_removes_first
    [of "[book 1 ''Dune'' ''Frank Herbert'' ''Science Fiction'' 1965 (1250 / 100) True]"]
  by (simp add: delete_by_title_def books_find_def get_field_def book_def)

section \<open>Updating the price of a book\<close>

text \<open>
  C3. The update of lines 11-14 (predicate \<open>{ title: "1984" }\<close>, assignment
  \<open>{ price: 12.99 }\<close>) keeps the number and the positions of the documents; a document
  whose title is not "1984" is unchanged as a whole; a document that is changed has the
  title "1984" and the new price; in every document the fields other than \<open>price\<close>
  are unchanged, in content and in order; and when no document has the title the
  collection is unchanged.
\<close>

theorem update_price_changes_only_price:
  "length (update_price books) = length books \<and>
   (\<forall>i<length books. get_field ''title'' (books ! i) \<noteq> Some (BStr ''1984'') \<longrightarrow>
      update_price books ! i = books ! i) \<and>
   (\<forall>i<length books. update_price books ! i \<noteq> books ! i \<longrightarrow>
      get_field ''title'' (books ! i) = Some (BStr ''1984'') \<and>
      get_field ''price'' (update_price books ! i) = Some (BNum (1299 / 100))) \<and>
   (\<forall>i<length books.
      filter (\<lambda>(k, v). k \<noteq> ''price'') (update_price books ! i)
        = filter (\<lambda>(k, v). k \<noteq> ''price'') (books ! i) \<and>
      (\<forall>f. f \<noteq> ''price'' \<longrightarrow>
         get_field f (update_price books ! i) = get_field f (books ! i))) \<and>
   ((\<forall>d\<in>set books. get_field ''title'' d \<noteq> Some (BStr ''1984'')) \<longrightarrow>
      update_price books = books)"
proof -
  let ?q = "(And [Cond ''title'' (Eq (BStr ''1984''))])"
  let ?s = "[(''price'', BNum (1299 / 100))]"
  have set1: "apply_set ?s d = set_field ''price'' (BNum (1299 / 100)) d" for d
    by (simp add: apply_set_def)
  have nth: "update_price books ! i = books ! i \<or>
      (get_field ''title'' (books ! i) = Some (BStr ''1984'') \<and>
       update_price books ! i = set_field ''price'' (BNum (1299 / 100)) (books ! i))"
    if "i < length books" for i
    using updateOne_nth[OF that, of ?q ?s]
    unfolding update_price_def matches_eq_str set1 .
  have a: "length (update_price books) = length books"
    by (simp add: update_price_def updateOne_length)
  have b: "\<forall>i<length books. get_field ''title'' (books ! i) \<noteq> Some (BStr ''1984'') \<longrightarrow>
      update_price books ! i = books ! i"
    using nth by blast
  have e: "\<forall>i<length books. update_price books ! i \<noteq> books ! i \<longrightarrow>
      get_field ''title'' (books ! i) = Some (BStr ''1984'') \<and>
      get_field ''price'' (update_price books ! i) = Some (BNum (1299 / 100))"
  proof (intro allI impI)
    fix i assume "i < length books" and "update_price books ! i \<noteq> books ! i"
    with nth[of i] show "get_field ''title'' (books ! i) = Some (BStr ''1984'') \<and>
      get_field ''price'' (update_price books ! i) = Some (BNum (1299 / 100))"
      by (auto simp: get_set_field)
  qed
  have c: "\<forall>i<length books.
      filter (\<lambda>(k, v). k \<noteq> ''price'') (update_price books ! i)
        = filter (\<lambda>(k, v). k \<noteq> ''price'') (books ! i) \<and>
      (\<forall>f. f \<noteq> ''price'' \<longrightarrow>
         get_field f (update_price books ! i) = get_field f (books ! i))"
  proof (intro allI impI)
    fix i assume "i < length books"
    from nth[OF this] show "filter (\<lambda>(k, v). k \<noteq> ''price'') (update_price books ! i)
        = filter (\<lambda>(k, v). k \<noteq> ''price'') (books ! i) \<and>
      (\<forall>f. f \<noteq> ''price'' \<longrightarrow>
         get_field f (update_price books ! i) = get_field f (books ! i))"
      by (auto simp: others_set_field get_set_field)
  qed
  have d: "(\<forall>d\<in>set books. get_field ''title'' d \<noteq> Some (BStr ''1984'')) \<longrightarrow>
      update_price books = books"
  proof
    assume "\<forall>d\<in>set books. get_field ''title'' d \<noteq> Some (BStr ''1984'')"
    then have "books_find ?q books = []"
      by (simp add: books_find_def matches_eq_str del: matches.simps)
    then show "update_price books = books"
      by (simp add: update_price_def updateOne_nomatch)
  qed
  from a b e c d show ?thesis by blast
qed

theorem update_price_changes_only_price_witness:
  "update_price
     [book 1 ''The Hobbit'' ''J.R.R. Tolkien'' ''Fantasy'' 1937 (1499 / 100) True,
      book 2 ''1984'' ''George Orwell'' ''Dystopian'' 1949 (1099 / 100) True]
   = [book 1 ''The Hobbit'' ''J.R.R. Tolkien'' ''Fantasy'' 1937 (1499 / 100) True,
      book 2 ''1984'' ''George Orwell'' ''Dystopian'' 1949 (1299 / 100) True] \<and>
   update_price [book 1 ''The Hobbit'' ''J.R.R. Tolkien'' ''Fantasy'' 1937 (1499 / 100) True]
   = [book 1 ''The Hobbit'' ''J.R.R. Tolkien'' ''Fantasy'' 1937 (1499 / 100) True]"
  using update_price_changes_only_price
    [of "[book 1 ''The Hobbit'' ''J.R.R. Tolkien'' ''Fantasy'' 1937 (1499 / 100) True,
          book 2 ''1984'' ''George Orwell'' ''Dystopian'' 1949 (1099 / 100) True]"]
    update_price_changes_only_price
    [of "[book 1 ''The Hobbit'' ''J.R.R. Tolkien'' ''Fantasy'' 1937 (1499 / 100) True]"]
  by (simp add: update_price_def apply_set_def get_field_def book_def)

section \<open>Filter reads\<close>

lemma cond_holds_Eq:
  "cond_holds (Eq v) fv \<longleftrightarrow> fv = Some v \<or> (v = BNull \<and> fv = None)"
  by (cases fv) auto

lemma cond_holds_Gt: "cond_holds (Gt n) fv \<longleftrightarrow> (\<exists>x. fv = Some (BNum x) \<and> n < x)"
proof (cases fv)
  case None
  then show ?thesis by simp
next
  case (Some v)
  then show ?thesis by (cases v) simp_all
qed

lemma cond_holds_Gte: "cond_holds (Gte n) fv \<longleftrightarrow> (\<exists>x. fv = Some (BNum x) \<and> n \<le> x)"
proof (cases fv)
  case None
  then show ?thesis by simp
next
  case (Some v)
  then show ?thesis by (cases v) simp_all
qed

lemma cond_holds_Lt: "cond_holds (Lt n) fv \<longleftrightarrow> (\<exists>x. fv = Some (BNum x) \<and> x < n)"
proof (cases fv)
  case None
  then show ?thesis by simp
next
  case (Some v)
  then show ?thesis by (cases v) simp_all
qed

lemma cond_holds_Lte: "cond_holds (Lte n) fv \<longleftrightarrow> (\<exists>x. fv = Some (BNum x) \<and> x \<le> n)"
proof (cases fv)
  case None
  then show ?thesis by simp
next
  case (Some v)
  then show ?thesis by (cases v) simp_all
qed

lemma count_list_filter:
  "count_list (filter P xs) x = (if P x then count_list xs x else 0)"
  by (induction xs) auto

text \<open>
  C8. For every collection and every query on top-level fields, built from equality and
  range conditions by \<open>$not\<close>, conjunction and \<open>$or\<close>, \<open>find\<close> returns exactly the
  documents of the collection that satisfy the query, each as often as the collection
  holds it. What satisfying means is stated on the stored field values: equality with
  a value holds when the field holds that value (or is missing, for null); \<open>$gt\<close>,
  \<open>$gte\<close>, \<open>$lt\<close>, \<open>$lte\<close> with \<open>n\<close> hold when the field holds a number above, at
  least, below, at most \<open>n\<close>; \<open>$not\<close> returns the documents the negated condition does
  not return; a conjunction returns the documents every part returns, \<open>$or\<close> those some
  part returns. For the query of line 21 the result holds exactly the documents with
  \<open>in_stock\<close> true and a numeric \<open>published_year\<close> above 2010.
\<close>

theorem books_find_exact_subset:
  assumes "valid_query q"
  shows "(d \<in> set (books_find q books) \<longleftrightarrow>
            d \<in> set books \<and>
            (case q of
               Cond f c \<Rightarrow>
                 (case c of
                    Eq v \<Rightarrow> get_field f d = Some v \<or> (v = BNull \<and> get_field f d = None)
                  | Gt n \<Rightarrow> (\<exists>x. get_field f d = Some (BNum x) \<and> n < x)
                  | Gte n \<Rightarrow> (\<exists>x. get_field f d = Some (BNum x) \<and> n \<le> x)
                  | Lt n \<Rightarrow> (\<exists>x. get_field f d = Some (BNum x) \<and> x < n)
                  | Lte n \<Rightarrow> (\<exists>x. get_field f d = Some (BNum x) \<and> x \<le> n)
                  | Not c' \<Rightarrow> d \<notin> set (books_find (Cond f c') books))
             | And qs \<Rightarrow> (\<forall>p\<in>set qs. d \<in> set (books_find p books))
             | Or p qs \<Rightarrow>
                 d \<in> set (books_find p books) \<or> (\<exists>r\<in>set qs. d \<in> set (books_find r books)))) \<and>
         count_list (books_find q books) d
           = (if d \<in> set (books_find q books) then count_list books d else 0) \<and>
         set (in_stock_after_2010 books)
           = {x \<in> set books. get_field ''in_stock'' x = Some (BBool True) \<and>
                (\<exists>y. get_field ''published_year'' x = Some (BNum y) \<and> 2010 < y)}"
proof -
  have mem: "x \<in> set (books_find p books) \<longleftrightarrow> x \<in> set books \<and> matches p x" for p x
    by (simp add: books_find_def)
  have sat: "matches q d \<longleftrightarrow>
      (case q of
         Cond f c \<Rightarrow>
           (case c of
              Eq v \<Rightarrow> get_field f d = Some v \<or> (v = BNull \<and> get_field f d = None)
            | Gt n \<Rightarrow> (\<exists>x. get_field f d = Some (BNum x) \<and> n < x)
            | Gte n \<Rightarrow> (\<exists>x. get_field f d = Some (BNum x) \<and> n \<le> x)
            | Lt n \<Rightarrow> (\<exists>x. get_field f d = Some (BNum x) \<and> x < n)
            | Lte n \<Rightarrow> (\<exists>x. get_field f d = Some (BNum x) \<and> x \<le> n)
            | Not c' \<Rightarrow> d \<notin> set (books_find (Cond f c') books))
       | And qs \<Rightarrow> (\<forall>p\<in>set qs. d \<in> set (books_find p books))
       | Or p qs \<Rightarrow>
           d \<in> set (books_find p books) \<or> (\<exists>r\<in>set qs. d \<in> set (books_find r books)))"
    if d: "d \<in> set books"
  proof (cases q)
    case (Cond f c)
    show ?thesis
    proof (cases c)
      case (Eq v)
      with Cond show ?thesis by (simp only: matches.simps cond_holds_Eq query.case cond.case)
    next
      case (Gt n)
      with Cond show ?thesis by (simp only: matches.simps cond_holds_Gt query.case cond.case)
    next
      case (Gte n)
      with Cond show ?thesis by (simp only: matches.simps cond_holds_Gte query.case cond.case)
    next
      case (Lt n)
      with Cond show ?thesis by (simp only: matches.simps cond_holds_Lt query.case cond.case)
    next
      case (Lte n)
      with Cond show ?thesis by (simp only: matches.simps cond_holds_Lte query.case cond.case)
    next
      case (Not c')
      with Cond d show ?thesis by (simp add: mem)
    qed
  next
    case (And qs)
    with d show ?thesis by (simp add: mem list_all_iff)
  next
    case (Or p qs)
    with d show ?thesis by (simp add: mem list_ex_iff)
  qed
  have a: "d \<in> set (books_find q books) \<longleftrightarrow>
      d \<in> set books \<and>
      (case q of
         Cond f c \<Rightarrow>
           (case c of
              Eq v \<Rightarrow> get_field f d = Some v \<or> (v = BNull \<and> get_field f d = None)
            | Gt n \<Rightarrow> (\<exists>x. get_field f d = Some (BNum x) \<and> n < x)
            | Gte n \<Rightarrow> (\<exists>x. get_field f d = Some (BNum x) \<and> n \<le> x)
            | Lt n \<Rightarrow> (\<exists>x. get_field f d = Some (BNum x) \<and> x < n)
            | Lte n \<Rightarrow> (\<exists>x. get_field f d = Some (BNum x) \<and> x \<le> n)
            | Not c' \<Rightarrow> d \<notin> set (books_find (Cond f c') books))
       | And qs \<Rightarrow> (\<forall>p\<in>set qs. d \<in> set (books_find p books))
       | Or p qs \<Rightarrow>
           d \<in> set (books_find p books) \<or> (\<exists>r\<in>set qs. d \<in> set (books_find r books)))"
    using sat mem[of d q] by blast
  have "count_list (books_find q books) d = (if matches q d then count_list books d else 0)"
    by (simp only: books_find_def count_list_filter)
  also have "\<dots> = (if d \<in> set (books_find q books) then count_list books d else 0)"
    by (cases "d \<in> set books") (simp_all add: mem count_list_0_iff)
  finally have b: "count_list (books_find q books) d
      = (if d \<in> set (books_find q books) then count_list books d else 0)" .
  have c: "set (in_stock_after_2010 books)
      = {x \<in> set books. get_field ''in_stock'' x = Some (BBool True) \<and>
           (\<exists>y. get_field ''published_year'' x = Some (BNum y) \<and> 2010 < y)}"
    by (simp add: in_stock_after_2010_def books_find_def matches_true_gt del: matches.simps)
  from a b c show ?thesis by blast
qed

theorem books_find_exact_subset_witness:
  "valid_query (And [Cond ''in_stock'' (Eq (BBool True)), Cond ''published_year'' (Gt 2010)]) \<and>
   in_stock_after_2010
     [book 1 ''1984'' ''George Orwell'' ''Dystopian'' 1949 (1099 / 100) True,
      book 2 ''The Martian'' ''Andy Weir'' ''Science Fiction'' 2011 (1399 / 100) True,
      book 3 ''Gone Girl'' ''Gillian Flynn'' ''Thriller'' 2012 (999 / 100) False]
   = [book 2 ''The Martian'' ''Andy Weir'' ''Science Fiction'' 2011 (1399 / 100) True] \<and>
   valid_query (Or (Cond ''published_year'' (Lte 1949))
                   [Cond ''in_stock'' (Not (Eq (BBool True)))]) \<and>
   books_find (Or (Cond ''published_year'' (Lte 1949))
                  [Cond ''in_stock'' (Not (Eq (BBool True)))])
     [book 1 ''1984'' ''George Orwell'' ''Dystopian'' 1949 (1099 / 100) True,
      book 2 ''The Martian'' ''Andy Weir'' ''Science Fiction'' 2011 (1399 / 100) True,
      book 3 ''Gone Girl'' ''Gillian Flynn'' ''Thriller'' 2012 (999 / 100) False]
   = [book 1 ''1984'' ''George Orwell'' ''Dystopian'' 1949 (1099 / 100) True,
      book 3 ''Gone Girl'' ''Gillian Flynn'' ''Thriller'' 2012 (999 / 100) False]"
  using books_find_exact_subset
    [of "And [Cond ''in_stock'' (Eq (BBool True)), Cond ''published_year'' (Gt 2010)]"
      "book 2 ''The Martian'' ''Andy Weir'' ''Science Fiction'' 2011 (1399 / 100) True"
      "[book 1 ''1984'' ''George Orwell'' ''Dystopian'' 1949 (1099 / 100) True,
        book 2 ''The Martian'' ''Andy Weir'' ''Science Fiction'' 2011 (1399 / 100) True,
        book 3 ''Gone Girl'' ''Gillian Flynn'' ''Thriller'' 2012 (999 / 100) False]"]
    books_find_exact_subset
    [of "Or (Cond ''published_year'' (Lte 1949)) [Cond ''in_stock'' (Not (Eq (BBool True)))]"
      "book 1 ''1984'' ''George Orwell'' ''Dystopian'' 1949 (1099 / 100) True"
      "[book 1 ''1984'' ''George Orwell'' ''Dystopian'' 1949 (1099 / 100) True,
        book 2 ''The Martian'' ''Andy Weir'' ''Science Fiction'' 2011 (1399 / 100) True,
        book 3 ''Gone Girl'' ''Gillian Flynn'' ''Thriller'' 2012 (999 / 100) False]"]
  by (simp add: plain_field_def in_stock_after_2010_def books_find_def get_field_def book_def)

section \<open>Projection\<close>

lemma get_field_filter_keys:
  "get_field f (filter (\<lambda>(k, v). P k) d) = (if P f then get_field f d else None)"
  by (induction d) (auto simp: get_field_def)

lemma get_field_project_inclusion:
  "get_field f (project_inclusion spec d) =
     (if (if f = ''_id'' then map_of spec f \<noteq> Some False else map_of spec f = Some True)
      then get_field f d else None)"
  unfolding project_inclusion_def
  using get_field_filter_keys[of f "\<lambda>k. if k = ''_id'' then map_of spec k \<noteq> Some False
                       else map_of spec k = Some True" d]
  by simp

lemma keys_project_inclusion:
  "k \<in> fst ` set (project_inclusion spec d) \<Longrightarrow>
     (if k = ''_id'' then map_of spec k \<noteq> Some False else map_of spec k = Some True)"
  by (auto simp: project_inclusion_def)

text \<open>
  C9. The projection \<open>{ title: 1, author: 1, price: 1, _id: 0 }\<close> of lines 24-27 returns
  one document per stored document; in it \<open>title\<close>, \<open>author\<close> and \<open>price\<close> are as
  stored (present exactly when stored), \<open>_id\<close> is absent, and so is every field other
  than the three.
\<close>

theorem title_author_price_projection:
  "length (title_author_price books) = length books \<and>
   (\<forall>i<length books.
      (\<forall>f\<in>{''title'', ''author'', ''price''}.
         get_field f (title_author_price books ! i) = get_field f (books ! i)) \<and>
      get_field ''_id'' (title_author_price books ! i) = None \<and>
      (\<forall>f. f \<notin> {''title'', ''author'', ''price''} \<longrightarrow>
         get_field f (title_author_price books ! i) = None) \<and>
      fst ` set (title_author_price books ! i) \<subseteq> {''title'', ''author'', ''price''})"
proof -
  let ?spec = "[(''title'', True), (''author'', True), (''price'', True), (''_id'', False)]"
  have all: "books_find (And []) books = books"
    by (simp add: books_find_def matches_Nil)
  have res: "title_author_price books = map (project_inclusion ?spec) books"
    by (simp add: title_author_price_def books_find_projection_def all)
  have keep: "(if f = ''_id'' then map_of ?spec f \<noteq> Some False else map_of ?spec f = Some True)
      \<longleftrightarrow> f \<in> {''title'', ''author'', ''price''}" for f
    by simp
  have fld: "get_field f (project_inclusion ?spec d)
      = (if f \<in> {''title'', ''author'', ''price''} then get_field f d else None)" for f d
    unfolding get_field_project_inclusion keep ..
  have keys: "fst ` set (project_inclusion ?spec d) \<subseteq> {''title'', ''author'', ''price''}" for d
    using keys_project_inclusion[of _ ?spec d] unfolding keep by blast
  have a: "length (title_author_price books) = length books"
    by (simp add: res)
  have b: "\<forall>i<length books.
      (\<forall>f\<in>{''title'', ''author'', ''price''}.
         get_field f (title_author_price books ! i) = get_field f (books ! i)) \<and>
      get_field ''_id'' (title_author_price books ! i) = None \<and>
      (\<forall>f. f \<notin> {''title'', ''author'', ''price''} \<longrightarrow>
         get_field f (title_author_price books ! i) = None) \<and>
      fst ` set (title_author_price books ! i) \<subseteq> {''title'', ''author'', ''price''}"
  proof (intro allI impI)
    fix i assume i: "i < length books"
    then have r: "title_author_price books ! i = project_inclusion ?spec (books ! i)"
      by (simp add: res)
    show "(\<forall>f\<in>{''title'', ''author'', ''price''}.
         get_field f (title_author_price books ! i) = get_field f (books ! i)) \<and>
      get_field ''_id'' (title_author_price books ! i) = None \<and>
      (\<forall>f. f \<notin> {''title'', ''author'', ''price''} \<longrightarrow>
         get_field f (title_author_price books ! i) = None) \<and>
      fst ` set (title_author_price books ! i) \<subseteq> {''title'', ''author'', ''price''}"
      unfolding r using keys[of "books ! i"] by (simp add: fld)
  qed
  from a b show ?thesis by blast
qed

theorem title_author_price_projection_witness:
  "title_author_price
     [book 1 ''1984'' ''George Orwell'' ''Dystopian'' 1949 (1099 / 100) True,
      [(''_id'', BObjectId 2), (''title'', BStr ''Untitled''), (''pages'', BNum 12)]]
   = [[(''title'', BStr ''1984''), (''author'', BStr ''George Orwell''), (''price'', BNum (1099 / 100))],
      [(''title'', BStr ''Untitled'')]]"
  using title_author_price_projection
    [of "[book 1 ''1984'' ''George Orwell'' ''Dystopian'' 1949 (1099 / 100) True,
          [(''_id'', BObjectId 2), (''title'', BStr ''Untitled''), (''pages'', BNum 12)]]"]
  by (simp add: title_author_price_def books_find_projection_def books_find_def
      project_inclusion_def book_def)

section \<open>Inclusive and strict year bounds\<close>

text \<open>
  C10. The query of line 5 ("published after a certain year") compares with \<open>$gte: 1960\<close>:
  it returns the documents whose \<open>published_year\<close> is a number of at least 1960, a book
  of 1960 included. The query of line 21 compares with \<open>$gt: 2010\<close>: a book of 2010 is
  never returned.
\<close>

theorem after_year_inclusive_after_2010_strict:
  "set (published_after_year books)
     = {d \<in> set books. \<exists>y. get_field ''published_year'' d = Some (BNum y) \<and> 1960 \<le> y} \<and>
   (\<forall>d\<in>set books. get_field ''published_year'' d = Some (BNum 1960) \<longrightarrow>
      d \<in> set (published_after_year books)) \<and>
   set (in_stock_after_2010 books)
     = {d \<in> set books. get_field ''in_stock'' d = Some (BBool True) \<and>
          (\<exists>y. get_field ''published_year'' d = Some (BNum y) \<and> 2010 < y)} \<and>
   (\<forall>d\<in>set books. get_field ''published_year'' d = Some (BNum 2010) \<longrightarrow>
      d \<notin> set (in_stock_after_2010 books))"
proof -
  have a: "set (published_after_year books)
     = {d \<in> set books. \<exists>y. get_field ''published_year'' d = Some (BNum y) \<and> 1960 \<le> y}"
    by (simp add: published_after_year_def match_stage_def matches_gte del: matches.simps)
  have b: "set (in_stock_after_2010 books)
     = {d \<in> set books. get_field ''in_stock'' d = Some (BBool True) \<and>
          (\<exists>y. get_field ''published_year'' d = Some (BNum y) \<and> 2010 < y)}"
    by (simp add: in_stock_after_2010_def books_find_def matches_true_gt del: matches.simps)
  have c: "\<forall>d\<in>set books. get_field ''published_year'' d = Some (BNum 1960) \<longrightarrow>
      d \<in> set (published_after_year books)"
    unfolding a by simp
  have d: "\<forall>d\<in>set books. get_field ''published_year'' d = Some (BNum 2010) \<longrightarrow>
      d \<notin> set (in_stock_after_2010 books)"
    unfolding b by simp
  from a b c d show ?thesis by blast
qed

theorem after_year_inclusive_after_2010_strict_witness:
  "published_after_year
     [book 1 ''To Kill a Mockingbird'' ''Harper Lee'' ''Fiction'' 1960 (1299 / 100) True,
      book 2 ''1984'' ''George Orwell'' ''Dystopian'' 1949 (1099 / 100) True]
   = [book 1 ''To Kill a Mockingbird'' ''Harper Lee'' ''Fiction'' 1960 (1299 / 100) True] \<and>
   in_stock_after_2010
     [book 3 ''Freedom'' ''Jonathan Franzen'' ''Fiction'' 2010 (1599 / 100) True,
      book 4 ''The Martian'' ''Andy Weir'' ''Science Fiction'' 2011 (1399 / 100) True]
   = [book 4 ''The Martian'' ''Andy Weir'' ''Science Fiction'' 2011 (1399 / 100) True]"
  using after_year_inclusive_after_2010_strict
    [of "[book 1 ''To Kill a Mockingbird'' ''Harper Lee'' ''Fiction'' 1960 (1299 / 100) True,
          book 2 ''1984'' ''George Orwell'' ''Dystopian'' 1949 (1099 / 100) True]"]
    after_year_inclusive_after_2010_strict
    [of "[book 3 ''Freedom'' ''Jonathan Franzen'' ''Fiction'' 2010 (1599 / 100) True,
          book 4 ''The Martian'' ''Andy Weir'' ''Science Fiction'' 2011 (1399 / 100) True]"]
  by (simp add: published_after_year_def match_stage_def in_stock_after_2010_def books_find_def
      get_field_def book_def)

section \<open>Pagination\<close>

lemma take_drop_slice: "take n (drop m xs) = map ((!) xs) [m ..< min (m + n) (length xs)]"
  by (rule nth_equalityI) auto

lemma pagination_take_drop:
  assumes "0 < s" and "1 \<le> p"
  shows "pagination s p books = Inr (take (nat s) (drop (nat ((p - 1) * s)) books))"
proof -
  from assms have "0 \<le> (p - 1) * s" by simp
  then have "\<not> (p - 1) * s < 0" by (simp only: not_less)
  with assms show ?thesis
    by (simp add: pagination_def cursor_skip_def cursor_limit_def books_find_def matches_Nil)
qed

lemma concat_pages:
  "concat (map (\<lambda>i. take s (drop (i * s) xs)) [0..<k]) = take (k * s) xs"
proof (induction k)
  case 0
  then show ?case by simp
next
  case (Suc k)
  have "Suc k * s = k * s + s" by simp
  then have "take (Suc k * s) xs = take (k * s) xs @ take s (drop (k * s) xs)"
    by (simp only: take_add)
  with Suc show ?case by simp
qed

lemma upto_as_upt: "[1..int m] = map (\<lambda>i. int i + 1) [0..<m]"
proof (induction m)
  case 0
  then show ?case by simp
next
  case (Suc m)
  have "[1..int (Suc m)] = [1..int m] @ [int m + 1]"
    using upto_rec2[of 1 "int (Suc m)"] by (simp add: add.commute)
  with Suc show ?case by simp
qed

text \<open>
  C5. For a page size \<open>s > 0\<close> and a page number \<open>p \<ge> 1\<close> the pagination of lines
  34-39 returns, without error, the documents at the positions \<open>(p-1)*s\<close> up to but
  excluding \<open>p*s\<close> of the full result sequence (as far as they exist); a page that
  starts at or after the end is the empty result.
\<close>

theorem pagination_slice:
  assumes "0 < s" and "1 \<le> p"
  shows "pagination s p books
           = Inr (map ((!) books) [nat ((p - 1) * s) ..< min (nat (p * s)) (length books)]) \<and>
         (length books \<le> nat ((p - 1) * s) \<longrightarrow> pagination s p books = Inr [])"
proof -
  from assms have nn: "0 \<le> (p - 1) * s" by simp
  have "(p - 1) * s + s = p * s" by (simp add: algebra_simps)
  with nn assms have sum: "nat ((p - 1) * s) + nat s = nat (p * s)"
    by (metis less_imp_le nat_add_distrib)
  have "pagination s p books = Inr (take (nat s) (drop (nat ((p - 1) * s)) books))"
    using assms by (rule pagination_take_drop)
  then have a: "pagination s p books
      = Inr (map ((!) books) [nat ((p - 1) * s) ..< min (nat (p * s)) (length books)])"
    by (simp only: take_drop_slice sum)
  then have "length books \<le> nat ((p - 1) * s) \<longrightarrow> pagination s p books = Inr []"
    by simp
  with a show ?thesis by blast
qed

theorem pagination_slice_witness:
  "(0::int) < 5 \<and> (1::int) \<le> 2 \<and> (1::int) \<le> 3 \<and>
   pagination 5 2 (map (\<lambda>i. [(''_id'', BObjectId i)]) [0..<7])
     = Inr [[(''_id'', BObjectId 5)], [(''_id'', BObjectId 6)]] \<and>
   pagination 5 3 (map (\<lambda>i. [(''_id'', BObjectId i)]) [0..<7]) = Inr []"
  using pagination_slice[of 5 2 "map (\<lambda>i. [(''_id'', BObjectId i)]) [0..<7]"]
    pagination_slice[of 5 3 "map (\<lambda>i. [(''_id'', BObjectId i)]) [0..<7]"]
  by (simp add: upt_rec)

text \<open>
  C6. With the page size 5 and \<open>n\<close> documents, the pages 1 to \<open>ceil(n/5)\<close> all succeed,
  page \<open>p\<close> is the same slice (five documents from position \<open>(p-1)*5\<close>) whenever it is
  requested, and the pages concatenated in order are the full result sequence: every
  document once, none left out.
\<close>

theorem pagination_pages_partition:
  "map (\<lambda>p. pagination 5 p books) [1..\<lceil>rat_of_nat (length books) / 5\<rceil>]
     = map (\<lambda>p. Inr (take 5 (drop (nat ((p - 1) * 5)) books)))
         [1..\<lceil>rat_of_nat (length books) / 5\<rceil>] \<and>
   concat (map (\<lambda>p. take 5 (drop (nat ((p - 1) * 5)) books))
     [1..\<lceil>rat_of_nat (length books) / 5\<rceil>]) = books"
proof -
  define k where "k = nat \<lceil>rat_of_nat (length books) / 5\<rceil>"
  have "0 \<le> rat_of_nat (length books) / 5" by simp
  then have "0 \<le> \<lceil>rat_of_nat (length books) / 5\<rceil>" by (simp only: zero_le_ceiling)
  then have kk: "\<lceil>rat_of_nat (length books) / 5\<rceil> = int k" by (simp add: k_def)
  have "rat_of_nat (length books) \<le> of_int \<lceil>rat_of_nat (length books) / 5\<rceil> * 5"
    by (rule ceiling_divide_upper) simp
  then have "rat_of_nat (length books) \<le> rat_of_nat (k * 5)"
    by (simp add: kk)
  then have cover: "length books \<le> k * 5" by (simp only: of_nat_le_iff)
  have a: "map (\<lambda>p. pagination 5 p books) [1..int k]
     = map (\<lambda>p. Inr (take 5 (drop (nat ((p - 1) * 5)) books))) [1..int k]"
    by (rule map_cong[OF refl]) (simp add: pagination_take_drop)
  have "concat (map (\<lambda>p. take 5 (drop (nat ((p - 1) * 5)) books)) [1..int k])
      = concat (map (\<lambda>i. take 5 (drop (i * 5) books)) [0..<k])"
    by (simp add: upto_as_upt comp_def nat_mult_distrib)
  also have "\<dots> = take (k * 5) books" by (rule concat_pages)
  also have "\<dots> = books" using cover by simp
  finally show ?thesis using a by (simp only: kk) 
qed

section \<open>Books by decade\<close>

lemma floor_rat_numeral:
  "\<lfloor>(numeral a :: rat) / numeral b\<rfloor> = numeral a div numeral b"
  using floor_divide_of_int_eq[of "numeral a" "numeral b", where ?'a = rat] by simp

lemma map_err_total:
  "(\<And>x. x \<in> set xs \<Longrightarrow> f x = Inr (g x)) \<Longrightarrow> map_err f xs = Inr (map g xs)"
  by (induction xs) auto

lemma decade_key_number:
  "get_field ''published_year'' d = Some (BNum a) \<Longrightarrow>
     decade_key d = Inr (BNum (of_int \<lfloor>a / 10\<rfloor>))"
  by (simp add: decade_key_def field_value_def)

lemma decade_project_number:
  "decade_project (BNum b, ms) = Inr [(''bookCount'', sum_one ms), (''decade'', BNum (b * 10))]"
  by (simp add: decade_project_def)

lemma books_by_decade_numbers:
  assumes "\<And>d. d \<in> set books \<Longrightarrow> get_field ''published_year'' d = Some (BNum (yr d))"
  shows "\<exists>out. books_by_decade books = Inr out \<and>
     (\<lambda>r. get_field ''decade'' r) ` set out
       = (\<lambda>d. Some (BNum (of_int (\<lfloor>yr d / 10\<rfloor> * 10)))) ` set books"
proof -
  let ?b = "\<lambda>d. of_int \<lfloor>yr d / 10\<rfloor> :: rat"
  let ?keys = "map (\<lambda>d. BNum (?b d)) books"
  let ?un = "\<lambda>k. case k of BNum b \<Rightarrow> b | _ \<Rightarrow> 0"
  let ?pr = "\<lambda>g. [(''bookCount'', sum_one (snd g)), (''decade'', BNum (?un (fst g) * 10))]"
  have keys: "map_err decade_key books = Inr ?keys"
    by (rule map_err_total) (simp only: assms decade_key_number)
  have proj: "map_err decade_project (group_by (\<lambda>k. k) ?keys)
      = Inr (map ?pr (group_by (\<lambda>k. k) ?keys))"
  proof (rule map_err_total)
    fix g assume "g \<in> set (group_by (\<lambda>k. k) ?keys)"
    then have "fst g \<in> fst ` set (group_by (\<lambda>k. k) ?keys)" by (rule imageI)
    then have "fst g \<in> set ?keys"
      by (simp only: set_group_keys image_ident)
    then obtain b where "fst g = BNum b" by auto
    then show "decade_project g = Inr (?pr g)"
      using decade_project_number[of b "snd g"] by (cases g) simp
  qed
  let ?out = "sort_stage ''decade'' Asc (map ?pr (group_by (\<lambda>k. k) ?keys))"
  have res: "books_by_decade books = Inr ?out"
    by (simp only: books_by_decade_def keys proj sum.case)
  have "(\<lambda>r. get_field ''decade'' r) ` set ?out
      = (\<lambda>g. Some (BNum (?un (fst g) * 10))) ` set (group_by (\<lambda>k. k) ?keys)"
    unfolding sort_stage_def set_sort_by set_map image_image by (simp add: get_field_def)
  also have "\<dots> = (\<lambda>k. Some (BNum (?un k * 10))) ` fst ` set (group_by (\<lambda>k. k) ?keys)"
    by (simp add: image_image)
  also have "\<dots> = (\<lambda>k. Some (BNum (?un k * 10))) ` set ?keys"
    by (simp only: set_group_keys image_ident)
  also have "\<dots> = (\<lambda>d. Some (BNum (of_int (\<lfloor>yr d / 10\<rfloor> * 10)))) ` set books"
    by (simp add: image_image)
  finally show ?thesis using res by blast
qed

text \<open>
  C4. In the pipeline of lines 73-90 a document with the numeric \<open>published_year\<close> \<open>a\<close>
  gets the group key \<open>floor(a / 10)\<close>, so 1975 gets 197; the projection reports a bucket
  \<open>b\<close> as decade \<open>b * 10\<close>, so 197 as 1970; and for a collection whose documents all
  have a numeric \<open>published_year\<close> the pipeline succeeds, every reported decade is ten
  times an integer, and the decade of every document is among the reported ones.
\<close>

theorem decade_bucketing:
  "(get_field ''published_year'' d = Some (BNum a) \<longrightarrow>
      decade_key d = Inr (BNum (of_int \<lfloor>a / 10\<rfloor>))) \<and>
   (get_field ''published_year'' d = Some (BNum 1975) \<longrightarrow> decade_key d = Inr (BNum 197)) \<and>
   decade_project (BNum b, ms) = Inr [(''bookCount'', sum_one ms), (''decade'', BNum (b * 10))] \<and>
   decade_project (BNum 197, ms) = Inr [(''bookCount'', sum_one ms), (''decade'', BNum 1970)] \<and>
   ((\<forall>x\<in>set books. \<exists>y. get_field ''published_year'' x = Some (BNum y)) \<longrightarrow>
      (\<exists>out. books_by_decade books = Inr out \<and>
         (\<forall>r\<in>set out. \<exists>m::int. get_field ''decade'' r = Some (BNum (of_int (10 * m)))) \<and>
         (\<forall>x\<in>set books. \<forall>y. get_field ''published_year'' x = Some (BNum y) \<longrightarrow>
            (\<exists>r\<in>set out. get_field ''decade'' r = Some (BNum (of_int (\<lfloor>y / 10\<rfloor> * 10)))))))"
proof -
  have k1: "get_field ''published_year'' d = Some (BNum a) \<longrightarrow>
      decade_key d = Inr (BNum (of_int \<lfloor>a / 10\<rfloor>))"
    by (simp add: decade_key_number)
  have k2: "get_field ''published_year'' d = Some (BNum 1975) \<longrightarrow> decade_key d = Inr (BNum 197)"
    by (simp add: decade_key_number floor_rat_numeral)
  have p1: "decade_project (BNum b, ms)
      = Inr [(''bookCount'', sum_one ms), (''decade'', BNum (b * 10))]"
    by (rule decade_project_number)
  have p2: "decade_project (BNum 197, ms)
      = Inr [(''bookCount'', sum_one ms), (''decade'', BNum 1970)]"
    by (simp add: decade_project_number)
  have whole: "\<exists>out. books_by_decade books = Inr out \<and>
         (\<forall>r\<in>set out. \<exists>m::int. get_field ''decade'' r = Some (BNum (of_int (10 * m)))) \<and>
         (\<forall>x\<in>set books. \<forall>y. get_field ''published_year'' x = Some (BNum y) \<longrightarrow>
            (\<exists>r\<in>set out. get_field ''decade'' r = Some (BNum (of_int (\<lfloor>y / 10\<rfloor> * 10)))))"
    if num: "\<forall>x\<in>set books. \<exists>y. get_field ''published_year'' x = Some (BNum y)"
  proof -
    define yr where
      "yr x = (case get_field ''published_year'' x of Some (BNum y) \<Rightarrow> y | _ \<Rightarrow> 0)" for x
    have yr: "get_field ''published_year'' x = Some (BNum (yr x))" if "x \<in> set books" for x
      using num that by (auto simp: yr_def)
    from books_by_decade_numbers[of books yr, OF yr] obtain out where
      res: "books_by_decade books = Inr out" and
      img: "(\<lambda>r. get_field ''decade'' r) ` set out
         = (\<lambda>x. Some (BNum (of_int (\<lfloor>yr x / 10\<rfloor> * 10)))) ` set books"
      by blast
    have m10: "\<exists>m::int. get_field ''decade'' r = Some (BNum (of_int (10 * m)))"
      if "r \<in> set out" for r
    proof -
      from that have "get_field ''decade'' r \<in> (\<lambda>r. get_field ''decade'' r) ` set out"
        by (rule imageI)
      then obtain x where "get_field ''decade'' r = Some (BNum (of_int (\<lfloor>yr x / 10\<rfloor> * 10)))"
        unfolding img by blast
      then have "get_field ''decade'' r = Some (BNum (of_int (10 * \<lfloor>yr x / 10\<rfloor>)))"
        by (simp only: mult.commute)
      then show ?thesis by blast
    qed
    have rep: "\<exists>r\<in>set out. get_field ''decade'' r = Some (BNum (of_int (\<lfloor>y / 10\<rfloor> * 10)))"
      if "x \<in> set books" and "get_field ''published_year'' x = Some (BNum y)" for x y
    proof -
      from that yr[of x] have "yr x = y" by simp
      with that(1) have "Some (BNum (of_int (\<lfloor>y / 10\<rfloor> * 10)))
          \<in> (\<lambda>x. Some (BNum (of_int (\<lfloor>yr x / 10\<rfloor> * 10)))) ` set books"
        by blast
      then have "Some (BNum (of_int (\<lfloor>y / 10\<rfloor> * 10))) \<in> (\<lambda>r. get_field ''decade'' r) ` set out"
        by (simp only: img)
      then show ?thesis by force
    qed
    from res m10 rep show ?thesis by blast
  qed
  from k1 k2 p1 p2 whole show ?thesis by blast
qed

theorem decade_bucketing_witness:
  "decade_key (book 1 ''Salem's Lot'' ''Stephen King'' ''Horror'' 1975 (899 / 100) True)
     = Inr (BNum 197) \<and>
   books_by_decade
     [book 1 ''Salem's Lot'' ''Stephen King'' ''Horror'' 1975 (899 / 100) True,
      book 2 ''1984'' ''George Orwell'' ''Dystopian'' 1949 (1099 / 100) True,
      book 3 ''The Shining'' ''Stephen King'' ''Horror'' 1977 (999 / 100) True]
   = Inr [[(''bookCount'', BNum 1), (''decade'', BNum 1940)],
          [(''bookCount'', BNum 2), (''decade'', BNum 1970)]]"
  using decade_bucketing
    [of "book 1 ''Salem's Lot'' ''Stephen King'' ''Horror'' 1975 (899 / 100) True" 1975 197 "[]"
      "[book 1 ''Salem's Lot'' ''Stephen King'' ''Horror'' 1975 (899 / 100) True,
        book 2 ''1984'' ''George Orwell'' ''Dystopian'' 1949 (1099 / 100) True,
        book 3 ''The Shining'' ''Stephen King'' ''Horror'' 1977 (999 / 100) True]"]
  by (simp add: books_by_decade_def decade_key_def decade_project_def field_value_def
      get_field_def book_def group_by_def sum_one_def sort_stage_def sort_by_def doc_le_def
      floor_rat_numeral)

section \<open>Average price by genre\<close>

lemma avg_genre_out:
  "r \<in> set (average_price_by_genre books) \<Longrightarrow>
   \<exists>k. k \<in> field_value ''genre'' ` set books \<and>
     r = [(''_id'', k), (''averagePrice'',
            avg (map (field_value ''price'') (filter (\<lambda>d. field_value ''genre'' d = k) books)))]"
  by (auto simp: average_price_by_genre_def sort_stage_def set_sort_by dest!: group_by_members)

lemma avg_genre_ids:
  "map (field_value ''_id'') (map (\<lambda>(k, members).
               [(''_id'', k), (''averagePrice'', avg (map (field_value ''price'') members))])
          (group_by (field_value ''genre'') books)) = map fst (group_by (field_value ''genre'') books)"
  by (auto simp: field_value_def get_field_def)

lemma avg_genre_distinct: "distinct (map (field_value ''_id'') (average_price_by_genre books))"
  unfolding average_price_by_genre_def sort_stage_def distinct_map_sort_by avg_genre_ids
  by (rule distinct_group_keys)

lemma avg_genre_keys:
  "field_value ''_id'' ` set (average_price_by_genre books) = field_value ''genre'' ` set books"
proof -
  have "field_value ''_id'' ` set (average_price_by_genre books)
      = set (map (field_value ''_id'') (map (\<lambda>(k, members).
               [(''_id'', k), (''averagePrice'', avg (map (field_value ''price'') members))])
          (group_by (field_value ''genre'') books)))"
    by (simp only: average_price_by_genre_def sort_stage_def set_sort_by set_map)
  also have "\<dots> = fst ` set (group_by (field_value ''genre'') books)"
    by (simp only: avg_genre_ids set_map)
  finally show ?thesis by (simp only: set_group_keys)
qed

lemma avg_all_numbers:
  assumes "map (get_field ''price'') ms = map (\<lambda>p. Some (BNum p)) ps" and "ms \<noteq> []"
  shows "ps \<noteq> [] \<and> avg (map (field_value ''price'') ms) = BNum (sum_list ps / of_nat (length ps))"
proof -
  from assms(1) have "length ms = length ps"
    using map_eq_imp_length_eq by blast
  with assms(2) have ne: "ps \<noteq> []" by auto
  have "map (field_value ''price'') ms
      = map (\<lambda>v. case v of None \<Rightarrow> BNull | Some x \<Rightarrow> x) (map (get_field ''price'') ms)"
    by (simp add: field_value_def comp_def)
  also have "\<dots> = map BNum ps"
    unfolding assms(1) by simp
  finally have "avg (map (field_value ''price'') ms) = avg (map BNum ps)" by simp
  with ne show ?thesis by (simp add: avg_def numbers_BNum)
qed

text \<open>
  C7. The pipeline of lines 43-53 returns one document per distinct genre of the
  collection (a missing genre counts as null); its \<open>averagePrice\<close> is \<open>$avg\<close> of the
  prices of the documents of that genre, which is the arithmetic mean (sum divided by
  count) when these documents all have a numeric price; and the output is sorted
  ascending by \<open>averagePrice\<close>.
\<close>

theorem average_price_by_genre_mean_sorted:
  "distinct (map (field_value ''_id'') (average_price_by_genre books)) \<and>
   field_value ''_id'' ` set (average_price_by_genre books) = field_value ''genre'' ` set books \<and>
   (\<forall>r\<in>set (average_price_by_genre books).
      r = [(''_id'', field_value ''_id'' r),
           (''averagePrice'',
            avg (map (field_value ''price'')
                   (filter (\<lambda>d. field_value ''genre'' d = field_value ''_id'' r) books)))] \<and>
      (\<forall>ps. map (get_field ''price'')
                (filter (\<lambda>d. field_value ''genre'' d = field_value ''_id'' r) books)
              = map (\<lambda>p. Some (BNum p)) ps \<longrightarrow>
            ps \<noteq> [] \<and>
            get_field ''averagePrice'' r = Some (BNum (sum_list ps / of_nat (length ps))))) \<and>
   sorted_wrt (\<lambda>a b. bson_le (field_value ''averagePrice'' a) (field_value ''averagePrice'' b))
     (average_price_by_genre books)"
proof -
  have per: "r = [(''_id'', field_value ''_id'' r),
           (''averagePrice'',
            avg (map (field_value ''price'')
                   (filter (\<lambda>d. field_value ''genre'' d = field_value ''_id'' r) books)))] \<and>
      (\<forall>ps. map (get_field ''price'')
                (filter (\<lambda>d. field_value ''genre'' d = field_value ''_id'' r) books)
              = map (\<lambda>p. Some (BNum p)) ps \<longrightarrow>
            ps \<noteq> [] \<and>
            get_field ''averagePrice'' r = Some (BNum (sum_list ps / of_nat (length ps))))"
    if "r \<in> set (average_price_by_genre books)" for r
  proof -
    from avg_genre_out[OF that] obtain k where
      k: "k \<in> field_value ''genre'' ` set books" and
      r: "r = [(''_id'', k), (''averagePrice'',
            avg (map (field_value ''price'') (filter (\<lambda>d. field_value ''genre'' d = k) books)))]"
      by blast
    let ?ms = "filter (\<lambda>d. field_value ''genre'' d = k) books"
    from r have id: "field_value ''_id'' r = k"
      by (simp add: field_value_def get_field_def)
    from r have av: "get_field ''averagePrice'' r = Some (avg (map (field_value ''price'') ?ms))"
      by (simp add: get_field_def)
    from k have ne: "?ms \<noteq> []" by (auto simp: filter_empty_conv)
    have "ps \<noteq> [] \<and> get_field ''averagePrice'' r = Some (BNum (sum_list ps / of_nat (length ps)))"
      if "map (get_field ''price'') ?ms = map (\<lambda>p. Some (BNum p)) ps" for ps
      using avg_all_numbers[OF that ne] av by simp
    with r show ?thesis unfolding id by blast
  qed
  have srt: "sorted_wrt
      (\<lambda>a b. bson_le (field_value ''averagePrice'' a) (field_value ''averagePrice'' b))
      (average_price_by_genre books)"
    unfolding average_price_by_genre_def by (rule sorted_sort_stage_asc)
  from per avg_genre_distinct[of books] avg_genre_keys[of books] srt
  show ?thesis by blast
qed

theorem average_price_by_genre_mean_sorted_witness:
  "average_price_by_genre
     [book 1 ''To Kill a Mockingbird'' ''Harper Lee'' ''Fiction'' 1960 20 True,
      book 2 ''The Hobbit'' ''J.R.R. Tolkien'' ''Fantasy'' 1937 12 True,
      book 3 ''The Great Gatsby'' ''F. Scott Fitzgerald'' ''Fiction'' 1925 (21 / 2) True]
   = [[(''_id'', BStr ''Fantasy''), (''averagePrice'', BNum 12)],
      [(''_id'', BStr ''Fiction''), (''averagePrice'', BNum (61 / 4))]]"
  using average_price_by_genre_mean_sorted
    [of "[book 1 ''To Kill a Mockingbird'' ''Harper Lee'' ''Fiction'' 1960 20 True,
          book 2 ''The Hobbit'' ''J.R.R. Tolkien'' ''Fantasy'' 1937 12 True,
          book 3 ''The Great Gatsby'' ''F. Scott Fitzgerald'' ''Fiction'' 1925 (21 / 2) True]"]
  by (simp add: average_price_by_genre_def avg_def field_value_def
      get_field_def book_def group_by_def sort_stage_def sort_by_def doc_le_def)

end
